theory Spec2Isabelle
  imports Main "HOL-Library.Sublist" "HOL-Library.Multiset"
begin

section \<open>Data model\<close>

text \<open>
  A component as the pipeline's stages read it: a manifest object with a \<open>name\<close>, the
  directory \<open>path\<close>, the declared \<open>styles\<close> and \<open>scripts\<close>, and the two requirement
  fields. \<open>requires\<close> and \<open>dependencies\<close> are optional arrays: \<open>None\<close> is the absent
  (undefined) field, \<open>Some []\<close> the empty array, which JavaScript treats as truthy.
\<close>

record component =
  name :: string
  path :: string
  styles :: "string list"
  scripts :: "string list"
  requires :: "string list option"
  dependencies :: "string list option"

text \<open>
  The component map is a JavaScript \<open>Map\<close> from names to components. It is finite and
  is kept as the list of its entries; \<open>get\<close> and \<open>has\<close> read it through \<open>map_of\<close>.
  A JavaScript \<open>Set\<close> of names is the list of its elements in insertion order, each
  element once.
\<close>

type_synonym component_map = "(string \<times> component) list"

definition cm_get :: "component_map \<Rightarrow> string \<Rightarrow> component option" where
  "cm_get m k = map_of m k"

definition cm_has :: "component_map \<Rightarrow> string \<Rightarrow> bool" where
  "cm_has m k = (map_of m k \<noteq> None)"

section \<open>Requirement validator (lib/requirement-validator.js)\<close>

text \<open>\<open>component.requires || component.dependencies || []\<close>\<close>

definition requirements :: "component \<Rightarrow> string list" where
  "requirements c =
     (case requires c of
        Some rs \<Rightarrow> rs
      | None \<Rightarrow> (case dependencies c of Some ds \<Rightarrow> ds | None \<Rightarrow> []))"

text \<open>The template literal of the error message.\<close>

definition requirement_error :: "string \<Rightarrow> string \<Rightarrow> string" where
  "requirement_error cname required =
     ''Component \"'' @ cname @ ''\" requires \"'' @ required @ ''\" which was not found''"

text \<open>The inner \<open>requirements.forEach\<close>: one push per entry that the map lacks.\<close>

fun check_requirements :: "component_map \<Rightarrow> component \<Rightarrow> string list \<Rightarrow> string list \<Rightarrow> string list" where
  "check_requirements m c [] errors = errors"
| "check_requirements m c (required # rest) errors =
     (if \<not> cm_has m required
      then check_requirements m c rest (errors @ [requirement_error (name c) required])
      else check_requirements m c rest errors)"

text \<open>The outer \<open>neededComponents.forEach\<close>, threading the \<open>errors\<close> array.\<close>

fun validate_loop :: "component_map \<Rightarrow> string list \<Rightarrow> string list \<Rightarrow> string list" where
  "validate_loop m [] errors = errors"
| "validate_loop m (componentName # rest) errors =
     (case cm_get m componentName of
        None \<Rightarrow> validate_loop m rest errors
      | Some c \<Rightarrow> validate_loop m rest (check_requirements m c (requirements c) errors))"

definition validateRequirements :: "string list \<Rightarrow> component_map \<Rightarrow> string list" where
  "validateRequirements neededComponents componentMap = validate_loop componentMap neededComponents []"


section \<open>Before-build phase (index.js)\<close>

record plugin_options =
  mainCSSEntry :: "string option"
  mainJSEntry :: "string option"
  validation_strict :: bool

record component_cache =
  cache_baseComponents :: "component list"
  cache_sectionComponents :: "component list"
  cache_componentMap :: component_map
  cache_projectRoot :: string

text \<open>
  A call either throws (\<open>Inl\<close> with the error's message) or completes (\<open>Inr\<close>).
  The body of \<open>validateRequirements\<close> holds no \<open>throw\<close>; called on a set of names and
  a map of components it completes with its array.
\<close>

definition call_validateRequirements :: "string list \<Rightarrow> component_map \<Rightarrow> string + string list" where
  "call_validateRequirements neededComponents m = Inr (validateRequirements neededComponents m)"

text \<open>
  Step 4 of the handler: \<open>try { validateRequirements(...) } catch (error) { console.error(...);
  if (options.validation.strict) throw error }\<close>. The value the call returns is not bound
  to anything. The console is the list of lines written so far.
\<close>

definition validation_step ::
  "plugin_options \<Rightarrow> string list \<Rightarrow> component_map \<Rightarrow> string list \<Rightarrow> string list \<times> (string + unit)" where
  "validation_step options neededComponents m console =
     (case call_validateRequirements neededComponents m of
        Inl message \<Rightarrow>
          (console @ [''[bundled-components] '' @ message],
           if validation_strict options then Inl message else Inr ())
      | Inr errors \<Rightarrow> (console, Inr ()))"

text \<open>
  The \<open>eleventy.before\<close> handler from the point where discovery and the template scan
  have returned. \<open>createComponentMap\<close>, \<open>resolveAllDependencies\<close> and
  \<open>filterNeededComponents\<close> are imported from other modules and are parameters here.
  The result is the console and either the thrown error or the new \<open>componentCache\<close>
  (\<open>None\<close> for \<open>null\<close>).
\<close>

definition eleventy_before ::
  "plugin_options \<Rightarrow> (component list \<Rightarrow> string + component_map) \<Rightarrow>
   (string list \<Rightarrow> component_map \<Rightarrow> string list) \<Rightarrow>
   (component list \<Rightarrow> string list \<Rightarrow> component list) \<Rightarrow>
   string \<Rightarrow> component list \<Rightarrow> component list \<Rightarrow> string list \<Rightarrow> string list \<Rightarrow>
   string list \<times> (string + component_cache option)" where
  "eleventy_before options createMap resolveAll filterNeeded root baseComps sectionComps usedComponents console =
     (let allComponents = baseComps @ sectionComps in
      if length allComponents = 0 then (console, Inr None)
      else
        (case createMap allComponents of
           Inl message \<Rightarrow> (console, Inl message)
         | Inr m \<Rightarrow>
             if length usedComponents = 0 then (console, Inr None)
             else
               (let neededComponents = resolveAll usedComponents m in
                (case validation_step options neededComponents m console of
                   (console', Inl message) \<Rightarrow> (console', Inl message)
                 | (console', Inr _) \<Rightarrow>
                     (console',
                      Inr (Some \<lparr>cache_baseComponents = filterNeeded baseComps neededComponents,
                                  cache_sectionComponents = filterNeeded sectionComps neededComponents,
                                  cache_componentMap = m,
                                  cache_projectRoot = root\<rparr>))))))"

section \<open>Template usage scanner (lib/template-parser.js)\<close>

text \<open>\<open>String.prototype.split('/')\<close>: the empty string splits into one empty segment.\<close>

fun split_slash :: "string \<Rightarrow> string list" where
  "split_slash [] = [[]]"
| "split_slash (c # cs) =
     (if c = CHR ''/'' then [] # split_slash cs
      else (case split_slash cs of
              [] \<Rightarrow> [[c]]
            | s # ss \<Rightarrow> (c # s) # ss))"

text \<open>
  The \<open>for\<close> loop of \<open>extractComponentName\<close> from index \<open>i\<close>: a marker segment followed
  by another segment returns that segment; a marker in the last position falls through
  to the next iteration, which ends the loop.
\<close>

function extract_from :: "string list \<Rightarrow> string list \<Rightarrow> nat \<Rightarrow> string option" where
  "extract_from componentDirs segments i =
     (if i < length segments then
        (if segments ! i \<in> set componentDirs \<and> i + 1 < length segments
         then Some (segments ! (i + 1))
         else extract_from componentDirs segments (i + 1))
      else None)"
  by pat_completeness auto
termination
  by (relation "measure (\<lambda>(componentDirs, segments, i). length segments - i)") auto

definition extractComponentName :: "string \<Rightarrow> string list \<Rightarrow> string option" where
  "extractComponentName importPath componentDirs = extract_from componentDirs (split_slash importPath) 0"

text \<open>\<open>Set.prototype.add\<close> on a set kept in insertion order.\<close>

definition set_add :: "'a \<Rightarrow> 'a list \<Rightarrow> 'a list" where
  "set_add x xs = (if x \<in> set xs then xs else xs @ [x])"

text \<open>
  One \<open>while\<close> loop of \<open>parseTemplateFile\<close> over the captured paths of a pattern's
  matches: \<open>if (componentName)\<close> drops \<open>null\<close> and the empty string.
\<close>

fun add_component_names :: "string list \<Rightarrow> string list \<Rightarrow> string list \<Rightarrow> string list" where
  "add_component_names componentDirs [] importedComponents = importedComponents"
| "add_component_names componentDirs (p # ps) importedComponents =
     (case extractComponentName p componentDirs of
        None \<Rightarrow> add_component_names componentDirs ps importedComponents
      | Some componentName \<Rightarrow>
          if componentName \<noteq> []
          then add_component_names componentDirs ps (set_add componentName importedComponents)
          else add_component_names componentDirs ps importedComponents)"

text \<open>An element of the front-matter \<open>sections\<close> array: an object, with its
  \<open>sectionType\<close> if it has one, or anything else.\<close>

datatype section_entry = SectionObject "string option" | SectionOther

record matter_result =
  data_sections :: "section_entry list option"
  content :: string

text \<open>
  What the scanner takes from its surroundings: reading a file (\<open>Inl\<close> is the thrown
  error's message), the front-matter parser, the captured paths of all matches of
  \<open>IMPORT_PATTERN\<close> and of \<open>INCLUDE_PATTERN\<close> in a text, and \<open>path.join\<close>.
\<close>

record scan_env =
  readFile :: "string \<Rightarrow> string + string"
  matter :: "string \<Rightarrow> string + matter_result"
  import_paths :: "string \<Rightarrow> string list"
  include_paths :: "string \<Rightarrow> string list"
  path_join :: "string \<Rightarrow> string \<Rightarrow> string"

definition parseTemplateFile :: "scan_env \<Rightarrow> string \<Rightarrow> string list \<Rightarrow> string list" where
  "parseTemplateFile env fileContent componentDirs =
     add_component_names componentDirs (include_paths env fileContent)
       (add_component_names componentDirs (import_paths env fileContent) [])"

text \<open>\<open>frontmatter.sections.forEach\<close>: objects with a truthy \<open>sectionType\<close> are added.\<close>

fun add_section_types :: "section_entry list \<Rightarrow> string list \<Rightarrow> string list" where
  "add_section_types [] components = components"
| "add_section_types (SectionObject (Some t) # rest) components =
     (if t \<noteq> [] then add_section_types rest (set_add t components)
      else add_section_types rest components)"
| "add_section_types (SectionObject None # rest) components = add_section_types rest components"
| "add_section_types (SectionOther # rest) components = add_section_types rest components"

text \<open>\<open>xs.forEach((x) => target.add(x))\<close>\<close>

definition add_all :: "'a list \<Rightarrow> 'a list \<Rightarrow> 'a list" where
  "add_all xs target = fold set_add xs target"

definition read_warning :: "string \<Rightarrow> string \<Rightarrow> string" where
  "read_warning fullPath message =
     ''Warning: Could not read template file '' @ fullPath @ '': '' @ message"

text \<open>
  \<open>processFile\<close>: the warnings it writes and the set it resolves to. Both the read and
  the front-matter parse are inside the \<open>try\<close>.
\<close>

definition processFile :: "scan_env \<Rightarrow> string \<Rightarrow> string list \<Rightarrow> string \<Rightarrow> string list \<times> string list" where
  "processFile env inputDir componentDirs filepath =
     (let fullPath = path_join env inputDir filepath in
      case readFile env fullPath of
        Inl message \<Rightarrow> ([read_warning fullPath message], [])
      | Inr text \<Rightarrow>
          (case matter env text of
             Inl message \<Rightarrow> ([read_warning fullPath message], [])
           | Inr parsed \<Rightarrow>
               (let components =
                      (case data_sections parsed of
                         None \<Rightarrow> []
                       | Some sections \<Rightarrow> add_section_types sections []);
                    fileComponents = parseTemplateFile env (content parsed) componentDirs
                in ([], add_all fileComponents components))))"

text \<open>A directory entry as \<open>readdirSync\<close> with \<open>withFileTypes\<close> lists it.\<close>

datatype dirent = FileEnt string | DirEnt string "dirent list" | OtherEnt string

definition ends_with :: "string \<Rightarrow> string \<Rightarrow> bool" where
  "ends_with s suffix_str = suffix suffix_str s"

fun scanEntry :: "scan_env \<Rightarrow> string list \<Rightarrow> string \<Rightarrow> dirent \<Rightarrow> string list \<Rightarrow> string list"
and scanDirectory :: "scan_env \<Rightarrow> string list \<Rightarrow> string \<Rightarrow> dirent list \<Rightarrow> string list \<Rightarrow> string list" where
  "scanEntry env componentDirs dir (DirEnt entryName sub) components =
     scanDirectory env componentDirs (path_join env dir entryName) sub components"
| "scanEntry env componentDirs dir (FileEnt entryName) components =
     (if ends_with entryName ''.njk'' then
        (case readFile env (path_join env dir entryName) of
           Inl message \<Rightarrow> components
         | Inr text \<Rightarrow> add_all (parseTemplateFile env text componentDirs) components)
      else components)"
| "scanEntry env componentDirs dir (OtherEnt entryName) components = components"
| "scanDirectory env componentDirs dir [] components = components"
| "scanDirectory env componentDirs dir (e # es) components =
     scanDirectory env componentDirs dir es (scanEntry env componentDirs dir e components)"

text \<open>
  \<open>scanLayoutFiles\<close>: the layout directory is given with its tree when it exists,
  \<open>None\<close> when \<open>fs.existsSync\<close> is false.
\<close>

definition scanLayoutFiles :: "scan_env \<Rightarrow> string \<Rightarrow> dirent list option \<Rightarrow> string list \<Rightarrow> string list" where
  "scanLayoutFiles env layoutDir tree componentDirs =
     (case tree of
        None \<Rightarrow> []
      | Some entries \<Rightarrow> scanDirectory env componentDirs layoutDir entries [])"

text \<open>
  \<open>detectUsedComponents\<close>. \<open>templateFiles\<close> is what \<open>glob\<close> returned; \<open>layoutDir\<close> is
  \<open>None\<close> for a falsy argument. \<open>Promise.all\<close> resolves to the results in the order of
  \<open>templateFiles\<close>; the tasks share no state, and the warnings are listed here in that
  order too, although the code does not fix the order in which concurrent reads fail.
  The result is the console and the set.
\<close>

definition detectUsedComponents ::
  "scan_env \<Rightarrow> string \<Rightarrow> string list \<Rightarrow> string option \<Rightarrow> dirent list option \<Rightarrow> string list \<Rightarrow> string list \<Rightarrow>
   string list \<times> string list" where
  "detectUsedComponents env inputDir templateFiles layoutDir layoutTree componentDirs console =
     (let results = map (processFile env inputDir componentDirs) templateFiles;
          console' = console @ concat (map fst results);
          allUsedComponents = fold add_all (map snd results) []
      in case layoutDir of
           None \<Rightarrow> (console', allUsedComponents)
         | Some d \<Rightarrow>
             (case layoutTree of
                None \<Rightarrow> (console', allUsedComponents)
              | Some entries \<Rightarrow>
                  (console', add_all (scanLayoutFiles env d (Some entries) componentDirs) allUsedComponents)))"

section \<open>Entry points for the bundler (lib/esbuild-processor.js)\<close>

text \<open>
  What the processor takes from Node: \<open>fs.existsSync\<close>, \<open>path.resolve\<close> of a root and
  an entry, and \<open>path.join\<close>. The file system is read, not written, while the entry
  points are collected.
\<close>

record node_env =
  existsSync :: "string \<Rightarrow> bool"
  path_resolve :: "string \<Rightarrow> string \<Rightarrow> string"
  node_join :: "string \<Rightarrow> string \<Rightarrow> string"

text \<open>\<open>if (options.mainCSSEntry)\<close>: \<open>null\<close> and the empty string are falsy.\<close>

definition add_main_entry :: "node_env \<Rightarrow> string \<Rightarrow> string option \<Rightarrow> string list \<Rightarrow> string list" where
  "add_main_entry env root entry entryPoints =
     (case entry of
        None \<Rightarrow> entryPoints
      | Some e \<Rightarrow>
          if e = [] then entryPoints
          else (let mainPath = path_resolve env root e in
                if existsSync env mainPath then set_add mainPath entryPoints else entryPoints))"

definition addMainEntries ::
  "node_env \<Rightarrow> plugin_options \<Rightarrow> string \<Rightarrow> string list \<times> string list \<Rightarrow> string list \<times> string list" where
  "addMainEntries env options root entries =
     (case entries of (cssEntryPoints, jsEntryPoints) \<Rightarrow>
        (add_main_entry env root (mainCSSEntry options) cssEntryPoints,
         add_main_entry env root (mainJSEntry options) jsEntryPoints))"

text \<open>The inner \<open>forEach\<close> over a component's declared style or script files.\<close>

fun collect_files :: "node_env \<Rightarrow> string \<Rightarrow> string list \<Rightarrow> string list \<Rightarrow> string list" where
  "collect_files env dir [] entryPoints = entryPoints"
| "collect_files env dir (f # fs) entryPoints =
     (let filePath = node_join env dir f in
      if existsSync env filePath
      then collect_files env dir fs (set_add filePath entryPoints)
      else collect_files env dir fs entryPoints)"

fun collectComponentAssets ::
  "node_env \<Rightarrow> component list \<Rightarrow> string list \<times> string list \<Rightarrow> string list \<times> string list" where
  "collectComponentAssets env [] entries = entries"
| "collectComponentAssets env (c # cs) entries =
     (case entries of (cssEntryPoints, jsEntryPoints) \<Rightarrow>
        collectComponentAssets env cs
          (collect_files env (path c) (styles c) cssEntryPoints,
           collect_files env (path c) (scripts c) jsEntryPoints))"

text \<open>
  The entry-point sets of \<open>bundleWithESBuild\<close> as \<open>bundleCSS\<close> and \<open>bundleJS\<close> receive
  them: main entries first, then base components, then section components.
\<close>

definition entry_points ::
  "node_env \<Rightarrow> plugin_options \<Rightarrow> string \<Rightarrow> component list \<Rightarrow> component list \<Rightarrow> string list \<times> string list" where
  "entry_points env options root baseComps sectionComps =
     collectComponentAssets env (baseComps @ sectionComps) (addMainEntries env options root ([], []))"

text \<open>
  The files whose text \<open>bundleCSS\<close> reads into the combined stylesheet, and the
  \<open>jsEntryArray\<close> that \<open>bundleJS\<close> turns into import lines: both test \<open>existsSync\<close> again.
\<close>

definition css_files_read :: "node_env \<Rightarrow> string list \<Rightarrow> string list" where
  "css_files_read env cssEntryPoints = filter (existsSync env) cssEntryPoints"

definition jsEntryArray :: "node_env \<Rightarrow> string list \<Rightarrow> string list" where
  "jsEntryArray env jsEntryPoints = filter (existsSync env) jsEntryPoints"

text \<open>The paths a component list declares, joined to the component directories.\<close>

definition declared_styles :: "node_env \<Rightarrow> component list \<Rightarrow> string list" where
  "declared_styles env cs = concat (map (\<lambda>c. map (node_join env (path c)) (styles c)) cs)"

definition declared_scripts :: "node_env \<Rightarrow> component list \<Rightarrow> string list" where
  "declared_scripts env cs = concat (map (\<lambda>c. map (node_join env (path c)) (scripts c)) cs)"

definition declared_main :: "node_env \<Rightarrow> string \<Rightarrow> string option \<Rightarrow> string list" where
  "declared_main env root entry =
     (case entry of None \<Rightarrow> [] | Some e \<Rightarrow> if e = [] then [] else [path_resolve env root e])"

section \<open>Requirement resolver (lib/dependency-resolver.js)\<close>

text \<open>
  Modelled from the spec: \<open>lib/dependency-resolver.js\<close> (\<open>resolveAllDependencies\<close>) is
  not among the sources; only its unit tests are. The resolver follows section 4.3 of
  the specification: a breadth-first closure starting
  from every used name, where visiting a name enqueues every entry of that component's
  requirement list that has not yet been visited; a name with no component is a member
  of the result and is not expanded; revisiting a visited name is a no-op.
\<close>

text \<open>Every name a map mentions: its keys and the requirement entries of its components
  (the bound for the traversal's termination).\<close>

definition all_names :: "component_map \<Rightarrow> string list" where
  "all_names m = map fst m @ concat (map (\<lambda>kv. requirements (snd kv)) m)"

text \<open>
  Modelled from the spec: the traversal of \<open>resolveAllDependencies\<close> (section 4.3), with the
  queue of names still to visit and the result set built so far, in insertion order.
\<close>

function resolve_queue :: "component_map \<Rightarrow> string list \<Rightarrow> string list \<Rightarrow> string list" where
  "resolve_queue m [] resolved = resolved"
| "resolve_queue m (current # queue) resolved =
     (if current \<in> set resolved then resolve_queue m queue resolved
      else
        (let resolved' = resolved @ [current] in
         case cm_get m current of
           None \<Rightarrow> resolve_queue m queue resolved'
         | Some c \<Rightarrow>
             resolve_queue m (queue @ filter (\<lambda>r. r \<notin> set resolved') (requirements c)) resolved'))"
  by pat_completeness auto
termination
proof (relation "measures [\<lambda>(m, queue, resolved). card ((set (all_names m) \<union> set queue) - set resolved),
                           \<lambda>(m, queue, resolved). length queue]", goal_cases)
  case 1
  then show ?case by simp
next
  case (2 m current queue resolved)
  have "(set (all_names m) \<union> set queue) - set resolved \<subseteq> (set (all_names m) \<union> set (current # queue)) - set resolved"
    by auto
  then have "card ((set (all_names m) \<union> set queue) - set resolved) \<le> card ((set (all_names m) \<union> set (current # queue)) - set resolved)"
    by (intro card_mono) auto
  then show ?case by auto
next
  case (3 m current queue resolved x)
  have "(set (all_names m) \<union> set queue) - set x \<subset> (set (all_names m) \<union> set (current # queue)) - set resolved"
    using 3 by auto
  then have "card ((set (all_names m) \<union> set queue) - set x) < card ((set (all_names m) \<union> set (current # queue)) - set resolved)"
    by (intro psubset_card_mono) auto
  then show ?case by simp
next
  case (4 m current queue resolved x c)
  then have sub: "set (requirements c) \<subseteq> set (all_names m)"
    by (force simp: all_names_def cm_get_def dest!: map_of_SomeD)
  have "(set (all_names m) \<union> set (queue @ filter (\<lambda>r. r \<notin> set x) (requirements c))) - set x
        \<subset> (set (all_names m) \<union> set (current # queue)) - set resolved"
    using 4 sub by auto
  then have "card ((set (all_names m) \<union> set (queue @ filter (\<lambda>r. r \<notin> set x) (requirements c))) - set x)
        < card ((set (all_names m) \<union> set (current # queue)) - set resolved)"
    by (intro psubset_card_mono) auto
  then show ?case by simp
qed

text \<open>Modelled from the spec: \<open>resolveAllDependencies\<close> (section 4.3) starts the traversal
  from every used name with an empty result.\<close>

definition resolveAllDependencies :: "string list \<Rightarrow> component_map \<Rightarrow> string list" where
  "resolveAllDependencies usedComponents m = resolve_queue m usedComponents []"

text \<open>
  The closure the resolver is to compute: a name is reached when it is used, or when a
  reached name resolves to a component that lists it as a requirement.
\<close>

inductive reaches :: "component_map \<Rightarrow> string list \<Rightarrow> string \<Rightarrow> bool" for m used where
  used: "x \<in> set used \<Longrightarrow> reaches m used x"
| required: "reaches m used y \<Longrightarrow> cm_get m y = Some c \<Longrightarrow> r \<in> set (requirements c) \<Longrightarrow> reaches m used r"

text \<open>Invariant of the traversal: the requirements of every visited component are
  visited or still queued.\<close>

definition closed_upto :: "component_map \<Rightarrow> string set \<Rightarrow> string set \<Rightarrow> bool" where
  "closed_upto m visited pending =
     (\<forall>y c. y \<in> visited \<longrightarrow> cm_get m y = Some c \<longrightarrow> set (requirements c) \<subseteq> visited \<union> pending)"

section \<open>Path-safety sanitizer (lib/component-discovery.js)\<close>

text \<open>
  Modelled from the spec: \<open>lib/component-discovery.js\<close> (\<open>isPathSafe\<close>) is not among the
  sources; only its unit tests are. Section 4.1 of the specification: a declared asset
  path is rejected when, once resolved relative to the component directory, it escapes
  that directory, that is, when its resolved form is not prefixed by the component
  directory's resolved form. Resolved forms are kept as lists of path segments; the
  component directory is an absolute path.
\<close>






section \<open>Notions used to state the properties\<close>

text \<open>
  The occurrences the validator reports: for each needed name that resolves, each entry
  of its requirement list that the map lacks, in the order the loops meet them. An
  entry listed twice occurs twice.
\<close>

definition missing_pairs :: "string list \<Rightarrow> component_map \<Rightarrow> (string \<times> string) list" where
  "missing_pairs neededComponents m =
     concat (map (\<lambda>n. case cm_get m n of
                          None \<Rightarrow> []
                        | Some c \<Rightarrow> map (Pair n) (filter (\<lambda>r. \<not> cm_has m r) (requirements c)))
                 neededComponents)"

definition pair_error :: "component_map \<Rightarrow> string \<times> string \<Rightarrow> string" where
  "pair_error m p = (case cm_get m (fst p) of None \<Rightarrow> [] | Some c \<Rightarrow> requirement_error (name c) (snd p))"

text \<open>Example data: components as the unit tests build them.\<close>

definition hero_dup :: component where
  "hero_dup = \<lparr>name = ''hero'', path = ''/c/hero'', styles = [], scripts = [],
               requires = Some [''x'', ''x''], dependencies = None\<rparr>"

definition hero_missing :: component where
  "hero_missing = \<lparr>name = ''hero'', path = ''/c/hero'', styles = [], scripts = [],
                   requires = Some [''missing-button''], dependencies = None\<rparr>"

definition comp_a :: component where
  "comp_a = \<lparr>name = ''a'', path = ''/c/a'', styles = [], scripts = [], requires = Some [''b''], dependencies = None\<rparr>"
definition comp_b :: component where
  "comp_b = \<lparr>name = ''b'', path = ''/c/b'', styles = [], scripts = [], requires = Some [''a'', ''ghost''], dependencies = None\<rparr>"
definition comp_self :: component where
  "comp_self = \<lparr>name = ''self'', path = ''/c/self'', styles = [], scripts = [], requires = None, dependencies = Some [''self'']\<rparr>"
definition cycle_map :: component_map where
  "cycle_map = [(''a'', comp_a), (''b'', comp_b), (''self'', comp_self)]"

text \<open>
  The template files a layout tree holds, by full path, and what one of them
  contributes to the walk: the names parsed from its text, nothing if it cannot be read.
\<close>

fun njk_files_entry :: "scan_env \<Rightarrow> string \<Rightarrow> dirent \<Rightarrow> string list"
and njk_files :: "scan_env \<Rightarrow> string \<Rightarrow> dirent list \<Rightarrow> string list" where
  "njk_files_entry env dir (DirEnt entryName sub) = njk_files env (path_join env dir entryName) sub"
| "njk_files_entry env dir (FileEnt entryName) =
     (if ends_with entryName ''.njk'' then [path_join env dir entryName] else [])"
| "njk_files_entry env dir (OtherEnt entryName) = []"
| "njk_files env dir [] = []"
| "njk_files env dir (e # es) = njk_files_entry env dir e @ njk_files env dir es"

definition layout_file_components :: "scan_env \<Rightarrow> string list \<Rightarrow> string \<Rightarrow> string list" where
  "layout_file_components env componentDirs p =
     (case readFile env p of
        Inl message \<Rightarrow> []
      | Inr text \<Rightarrow> parseTemplateFile env text componentDirs)"

text \<open>The two halves of a \<open>processFile\<close> result, and the layout channel's contribution.\<close>

definition file_warnings :: "scan_env \<Rightarrow> string \<Rightarrow> string list \<Rightarrow> string \<Rightarrow> string list" where
  "file_warnings env inputDir componentDirs filepath = fst (processFile env inputDir componentDirs filepath)"

definition file_components :: "scan_env \<Rightarrow> string \<Rightarrow> string list \<Rightarrow> string \<Rightarrow> string list" where
  "file_components env inputDir componentDirs filepath = snd (processFile env inputDir componentDirs filepath)"

definition layout_components :: "scan_env \<Rightarrow> string option \<Rightarrow> dirent list option \<Rightarrow> string list \<Rightarrow> string set" where
  "layout_components env layoutDir layoutTree componentDirs =
     (case layoutDir of
        None \<Rightarrow> {}
      | Some d \<Rightarrow>
          (case layoutTree of
             None \<Rightarrow> {}
           | Some entries \<Rightarrow> \<Union> (set ` layout_file_components env componentDirs ` set (njk_files env d entries))))"

text \<open>Example data for the bundler and the scanner: a small file system.\<close>

definition node0 :: node_env where
  "node0 = \<lparr>existsSync = (\<lambda>p. p \<in> set [''/site/assets/main.css'', ''/c/button/button.css'', ''/c/button/button.js'']),
            path_resolve = (\<lambda>a b. a @ ''/'' @ b),
            node_join = (\<lambda>a b. a @ ''/'' @ b)\<rparr>"

definition button_assets :: component where
  "button_assets = \<lparr>name = ''button'', path = ''/c/button'',
                    styles = [''button.css'', ''non-existent.css''],
                    scripts = [''button.js'', ''non-existent.js''],
                    requires = None, dependencies = None\<rparr>"

definition options0 :: plugin_options where
  "options0 = \<lparr>mainCSSEntry = Some ''assets/main.css'', mainJSEntry = Some ''non-existent/main.js'',
               validation_strict = False\<rparr>"

definition scan0 :: scan_env where
  "scan0 = \<lparr>readFile = (\<lambda>p. if p = ''src/index.md'' then Inr ''A''
                             else if p = ''layouts/base.njk'' then Inr ''B''
                             else Inl ''ENOENT''),
            matter = (\<lambda>t. Inr \<lparr>data_sections =
                                   (if t = ''A''
                                    then Some [SectionObject (Some ''hero''), SectionObject None, SectionOther]
                                    else None),
                                 content = t\<rparr>),
            import_paths = (\<lambda>t. if t = ''B'' then [''components/_partials/button/button.njk''] else []),
            include_paths = (\<lambda>t. []),
            path_join = (\<lambda>a b. a @ ''/'' @ b)\<rparr>"

definition layout0 :: "dirent list" where
  "layout0 = [FileEnt ''base.njk'', FileEnt ''broken.njk'', FileEnt ''readme.txt'',
              DirEnt ''nested'' [FileEnt ''gone.njk'']]"

definition markers0 :: "string list" where
  "markers0 = [''_partials'', ''sections'']"

section \<open>Basic facts\<close>

text \<open>Insertion-ordered sets.\<close>

lemma set_set_add [simp]: "set (set_add x xs) = insert x (set xs)"
  by (auto simp: set_add_def)

lemma distinct_set_add [simp]: "distinct (set_add x xs) = distinct xs"
  by (auto simp: set_add_def)

text \<open>The three branches of a traversal step; the recursive equation itself is not a
  simplification rule.\<close>

lemma resolve_queue_visited:
  "current \<in> set resolved \<Longrightarrow> resolve_queue m (current # queue) resolved = resolve_queue m queue resolved"
  by simp

lemma resolve_queue_missing:
  "current \<notin> set resolved \<Longrightarrow> cm_get m current = None \<Longrightarrow>
   resolve_queue m (current # queue) resolved = resolve_queue m queue (resolved @ [current])"
  by (simp add: Let_def)

lemma resolve_queue_found:
  "current \<notin> set resolved \<Longrightarrow> cm_get m current = Some c \<Longrightarrow>
   resolve_queue m (current # queue) resolved =
     resolve_queue m (queue @ filter (\<lambda>r. r \<notin> set (resolved @ [current])) (requirements c)) (resolved @ [current])"
  by (simp add: Let_def)

declare resolve_queue.simps(2) [simp del]

section \<open>Before-build phase: properties\<close>

lemma validation_step_never_throws:
  "validation_step options neededComponents m console = (console, Inr ())"
  by (simp add: validation_step_def call_validateRequirements_def)

text \<open>
  Claim C1 says that with \<open>validation.strict\<close> set the before-build phase turns a missing
  requirement into a thrown error, and without it logs the diagnostic and goes on.
  The handler does neither: \<open>validateRequirements\<close> returns its errors, the handler
  drops the returned array, and the \<open>catch\<close> branch that logs and rethrows is never
  entered. The validation step leaves the console as it was and completes, whatever
  the options; with \<open>strict\<close> set and a needed component whose requirement is missing,
  the handler completes with a component cache.
\<close>

theorem eleventy_before_strict_missing_requirement:
  "validation_step options neededComponents m console = (console, Inr ())
   \<and> validateRequirements (resolveAllDependencies [''hero''] [(''hero'', hero_missing)]) [(''hero'', hero_missing)]
       = [''Component \"hero\" requires \"missing-button\" which was not found'']
   \<and> eleventy_before \<lparr>mainCSSEntry = None, mainJSEntry = None, validation_strict = True\<rparr>
         (\<lambda>cs. Inr (map (\<lambda>c. (name c, c)) cs)) resolveAllDependencies filterNeeded
         root [hero_missing] [] [''hero''] console
       = (console,
          Inr (Some \<lparr>cache_baseComponents = filterNeeded [hero_missing] [''hero'', ''missing-button''],
                      cache_sectionComponents = filterNeeded [] [''hero'', ''missing-button''],
                      cache_componentMap = [(''hero'', hero_missing)],
                      cache_projectRoot = root\<rparr>))"
proof -
  have r: "resolveAllDependencies [''hero''] [(''hero'', hero_missing)] = [''hero'', ''missing-button'']"
    by (simp add: resolveAllDependencies_def resolve_queue.simps(2) cm_get_def requirements_def hero_missing_def)
  have n: "name hero_missing = ''hero''" by (simp add: hero_missing_def)
  have v: "validateRequirements [''hero'', ''missing-button''] [(''hero'', hero_missing)]
       = [''Component \"hero\" requires \"missing-button\" which was not found'']"
    by (simp add: validateRequirements_def cm_get_def cm_has_def requirements_def requirement_error_def hero_missing_def)
  show ?thesis
    by (simp add: validation_step_never_throws eleventy_before_def Let_def r n v)
qed

section \<open>Requirement validator: properties\<close>

lemma check_requirements_eq:
  "check_requirements m c rs errors =
     errors @ map (requirement_error (name c)) (filter (\<lambda>r. \<not> cm_has m r) rs)"
  by (induction rs arbitrary: errors) auto

lemma validate_loop_eq:
  "validate_loop m ns errors = errors @ map (pair_error m) (missing_pairs ns m)"
proof (induction ns arbitrary: errors)
  case Nil
  then show ?case by (simp add: missing_pairs_def)
next
  case (Cons n ns)
  show ?case
  proof (cases "cm_get m n")
    case None
    then show ?thesis using Cons[of errors] by (simp add: missing_pairs_def)
  next
    case (Some c)
    have "map (pair_error m) (map (Pair n) (filter (\<lambda>r. \<not> cm_has m r) (requirements c)))
            = map (requirement_error (name c)) (filter (\<lambda>r. \<not> cm_has m r) (requirements c))"
      using Some by (simp add: pair_error_def comp_def)
    then show ?thesis
      using Some Cons[of "check_requirements m c (requirements c) errors"]
      by (simp add: missing_pairs_def check_requirements_eq)
  qed
qed

lemma validateRequirements_eq:
  "validateRequirements ns m = map (pair_error m) (missing_pairs ns m)"
  by (simp add: validateRequirements_def validate_loop_eq)

lemma count_list_map_Pair:
  "count_list (map (Pair n) rs) (n', r) = (if n = n' then count_list rs r else 0)"
  by (induction rs) auto

lemma count_list_filter:
  "count_list (filter P rs) r = (if P r then count_list rs r else 0)"
  by (induction rs) auto

lemma count_missing_pairs_notin:
  "n \<notin> set ns \<Longrightarrow> count_list (missing_pairs ns m) (n, r) = 0"
  by (induction ns) (auto simp: missing_pairs_def count_list_map_Pair split: option.splits)

lemma count_missing_pairs:
  "distinct ns \<Longrightarrow>
   count_list (missing_pairs ns m) (n, r) =
     (if n \<in> set ns \<and> \<not> cm_has m r
      then (case cm_get m n of None \<Rightarrow> 0 | Some c \<Rightarrow> count_list (requirements c) r)
      else 0)"
proof (induction ns)
  case Nil
  then show ?case by (simp add: missing_pairs_def)
next
  case (Cons a ns)
  have split: "missing_pairs (a # ns) m = missing_pairs [a] m @ missing_pairs ns m"
    by (simp add: missing_pairs_def)
  have one: "count_list (missing_pairs [a] m) (n, r) =
      (if a = n \<and> \<not> cm_has m r
       then (case cm_get m n of None \<Rightarrow> 0 | Some c \<Rightarrow> count_list (requirements c) r) else 0)"
    by (auto simp: missing_pairs_def count_list_map_Pair count_list_filter split: option.splits)
  have sum: "count_list (missing_pairs (a # ns) m) (n, r) =
      count_list (missing_pairs [a] m) (n, r) + count_list (missing_pairs ns m) (n, r)"
    by (simp add: split)
  show ?case
  proof (cases "a = n")
    case True
    then have "n \<notin> set ns" using Cons.prems by simp
    then have "count_list (missing_pairs ns m) (n, r) = 0"
      by (rule count_missing_pairs_notin)
    then show ?thesis using True one sum by simp
  next
    case False
    have "count_list (missing_pairs [a] m) (n, r) = 0" using one False by simp
    moreover have "count_list (missing_pairs ns m) (n, r) =
      (if n \<in> set ns \<and> \<not> cm_has m r
       then (case cm_get m n of None \<Rightarrow> 0 | Some c \<Rightarrow> count_list (requirements c) r) else 0)"
      using Cons by simp
    ultimately show ?thesis using False sum by simp
  qed
qed

lemma set_missing_pairs:
  "set (missing_pairs ns m) =
     {(n, r). n \<in> set ns \<and> (\<exists>c. cm_get m n = Some c \<and> r \<in> set (requirements c) \<and> \<not> cm_has m r)}"
  by (auto simp: missing_pairs_def split: option.splits) (metis+)

lemma sublist_name: "sublist cname (requirement_error cname r)"
  unfolding requirement_error_def sublist_def by blast

lemma sublist_required: "sublist r (requirement_error cname r)"
  unfolding requirement_error_def sublist_def by (metis append.assoc)

lemma sublist_not_found: "sublist ''was not found'' (requirement_error cname r)"
  unfolding requirement_error_def sublist_def
  apply (rule exI[of _ "''Component \"'' @ cname @ ''\" requires \"'' @ r @ ''\" which ''"])
  apply (rule exI[of _ "[]"])
  apply simp
  done

lemma validateRequirements_empty_iff:
  "validateRequirements ns m = [] \<longleftrightarrow>
     (\<forall>n \<in> set ns. \<forall>c. cm_get m n = Some c \<longrightarrow> (\<forall>r \<in> set (requirements c). cm_has m r))"
proof -
  have "validateRequirements ns m = [] \<longleftrightarrow> set (missing_pairs ns m) = {}"
    by (simp add: validateRequirements_eq)
  also have "\<dots> \<longleftrightarrow> (\<forall>n \<in> set ns. \<forall>c. cm_get m n = Some c \<longrightarrow> (\<forall>r \<in> set (requirements c). cm_has m r))"
    unfolding set_missing_pairs by auto
  finally show ?thesis .
qed

text \<open>
  Claim C2, as the code has it. For every needed-component set and component map,
  \<open>validateRequirements\<close> returns (it has no failing branch) one error string per
  occurrence of a missing requirement: for each needed name \<open>n\<close> that resolves to a
  component \<open>c\<close> and each entry \<open>r\<close> of \<open>c\<close>'s requirement list (\<open>requires\<close>, else
  \<open>dependencies\<close>, else none) that is absent from the map, as many errors as \<open>r\<close> occurs
  in that list, hence exactly one per pair when the list names no component twice.
  Each error names the requiring component and the missing requirement and says it
  was not found; needed names absent from the map and components outside the needed
  set contribute nothing; the array is empty exactly when every such requirement
  resolves.
\<close>

theorem validateRequirements_one_error_per_occurrence:
  assumes "distinct neededComponents"
  shows "validateRequirements neededComponents m = map (pair_error m) (missing_pairs neededComponents m)
    \<and> (\<forall>n r. count_list (missing_pairs neededComponents m) (n, r) =
          (if n \<in> set neededComponents \<and> \<not> cm_has m r
           then (case cm_get m n of None \<Rightarrow> 0 | Some c \<Rightarrow> count_list (requirements c) r)
           else 0))
    \<and> (\<forall>n r c. (n, r) \<in> set (missing_pairs neededComponents m) \<longrightarrow> cm_get m n = Some c \<longrightarrow>
          sublist (name c) (pair_error m (n, r)) \<and> sublist r (pair_error m (n, r))
          \<and> sublist ''was not found'' (pair_error m (n, r)))
    \<and> (validateRequirements neededComponents m = [] \<longleftrightarrow>
          (\<forall>n \<in> set neededComponents. \<forall>c. cm_get m n = Some c \<longrightarrow>
             (\<forall>r \<in> set (requirements c). cm_has m r)))"
proof (intro conjI allI impI)
  show "validateRequirements neededComponents m = map (pair_error m) (missing_pairs neededComponents m)"
    by (rule validateRequirements_eq)
next
  fix n r
  show "count_list (missing_pairs neededComponents m) (n, r) =
          (if n \<in> set neededComponents \<and> \<not> cm_has m r
           then (case cm_get m n of None \<Rightarrow> 0 | Some c \<Rightarrow> count_list (requirements c) r)
           else 0)"
    by (rule count_missing_pairs[OF assms])
next
  fix n r c assume "cm_get m n = Some c"
  then have e: "pair_error m (n, r) = requirement_error (name c) r"
    by (simp add: pair_error_def)
  show "sublist (name c) (pair_error m (n, r))" unfolding e by (rule sublist_name)
  show "sublist r (pair_error m (n, r))" unfolding e by (rule sublist_required)
  show "sublist ''was not found'' (pair_error m (n, r))" unfolding e by (rule sublist_not_found)
next
  show "validateRequirements neededComponents m = [] \<longleftrightarrow>
          (\<forall>n \<in> set neededComponents. \<forall>c. cm_get m n = Some c \<longrightarrow>
             (\<forall>r \<in> set (requirements c). cm_has m r))"
    by (rule validateRequirements_empty_iff)
qed

theorem validateRequirements_one_error_per_occurrence_witness:
  "distinct [''hero'', ''ghost'']
   \<and> validateRequirements [''hero'', ''ghost''] [(''hero'', hero_missing)] =
       [''Component \"hero\" requires \"missing-button\" which was not found'']
   \<and> count_list (missing_pairs [''hero'', ''ghost''] [(''hero'', hero_missing)]) (''hero'', ''missing-button'') = 1
   \<and> count_list (missing_pairs [''hero'', ''ghost''] [(''hero'', hero_missing)]) (''ghost'', ''missing-button'') = 0"
proof -
  have d: "distinct [''hero'', ''ghost'']" by simp
  note t = validateRequirements_one_error_per_occurrence[OF d, of "[(''hero'', hero_missing)]"]
  have p: "missing_pairs [''hero'', ''ghost''] [(''hero'', hero_missing)] = [(''hero'', ''missing-button'')]"
    by (simp add: missing_pairs_def cm_get_def cm_has_def requirements_def hero_missing_def)
  have e: "map (pair_error [(''hero'', hero_missing)]) [(''hero'', ''missing-button'')] =
       [''Component \"hero\" requires \"missing-button\" which was not found'']"
    by (simp add: pair_error_def cm_get_def requirement_error_def hero_missing_def)
  from t have "validateRequirements [''hero'', ''ghost''] [(''hero'', hero_missing)] =
      map (pair_error [(''hero'', hero_missing)]) (missing_pairs [''hero'', ''ghost''] [(''hero'', hero_missing)])"
    by blast
  then have v: "validateRequirements [''hero'', ''ghost''] [(''hero'', hero_missing)] =
       [''Component \"hero\" requires \"missing-button\" which was not found'']"
    unfolding p e .
  from t have c1: "count_list (missing_pairs [''hero'', ''ghost''] [(''hero'', hero_missing)]) (''hero'', ''missing-button'') =
      (if ''hero'' \<in> set [''hero'', ''ghost''] \<and> \<not> cm_has [(''hero'', hero_missing)] ''missing-button''
       then (case cm_get [(''hero'', hero_missing)] ''hero'' of None \<Rightarrow> 0
             | Some c \<Rightarrow> count_list (requirements c) ''missing-button'')
       else 0)"
    by blast
  from t have c2: "count_list (missing_pairs [''hero'', ''ghost''] [(''hero'', hero_missing)]) (''ghost'', ''missing-button'') =
      (if ''ghost'' \<in> set [''hero'', ''ghost''] \<and> \<not> cm_has [(''hero'', hero_missing)] ''missing-button''
       then (case cm_get [(''hero'', hero_missing)] ''ghost'' of None \<Rightarrow> 0
             | Some c \<Rightarrow> count_list (requirements c) ''missing-button'')
       else 0)"
    by blast
  have c1': "count_list (missing_pairs [''hero'', ''ghost''] [(''hero'', hero_missing)]) (''hero'', ''missing-button'') = 1"
    unfolding c1 by (simp add: cm_get_def cm_has_def requirements_def hero_missing_def)
  have c2': "count_list (missing_pairs [''hero'', ''ghost''] [(''hero'', hero_missing)]) (''ghost'', ''missing-button'') = 0"
    unfolding c2 by (simp add: cm_get_def cm_has_def)
  from d v c1' c2' show ?thesis by blast
qed

text \<open>
  The claim as written, one error per pair, fails where a requirement list names a
  missing component twice: one pair, two errors.
\<close>

theorem validateRequirements_duplicate_entry_counterexample:
  "validateRequirements [''hero''] [(''hero'', hero_dup)] =
     [''Component \"hero\" requires \"x\" which was not found'',
      ''Component \"hero\" requires \"x\" which was not found'']
   \<and> set (missing_pairs [''hero''] [(''hero'', hero_dup)]) = {(''hero'', ''x'')}"
  by (simp add: validateRequirements_def cm_get_def cm_has_def requirements_def hero_dup_def
        requirement_error_def missing_pairs_def)

section \<open>Template usage scanner: properties\<close>

declare extract_from.simps [simp del]

lemma extract_from_drop:
  "extract_from dirs segs i =
     (case dropWhile (\<lambda>s. s \<notin> set dirs) (drop i segs) of
        m # nxt # rest \<Rightarrow> Some nxt
      | _ \<Rightarrow> None)"
proof (induction dirs segs i rule: extract_from.induct)
  case (1 dirs segs i)
  show ?case
  proof (cases "i < length segs")
    case False
    then show ?thesis by (subst extract_from.simps) simp
  next
    case True
    then have d: "drop i segs = segs ! i # drop (Suc i) segs"
      by (simp add: Cons_nth_drop_Suc)
    show ?thesis
    proof (cases "segs ! i \<in> set dirs")
      case marker: True
      show ?thesis
      proof (cases "i + 1 < length segs")
        case next_exists: True
        then have d2: "drop (Suc i) segs = segs ! (Suc i) # drop (Suc (Suc i)) segs"
          by (simp add: Cons_nth_drop_Suc)
        show ?thesis
          using True marker next_exists
          by (subst extract_from.simps) (simp add: d d2)
      next
        case last: False
        then have e: "drop (Suc i) segs = []" by simp
        have "extract_from dirs segs (i + 1) = None"
          using last by (subst extract_from.simps) simp
        then show ?thesis
          using True marker last
          by (subst extract_from.simps) (simp add: d e)
      qed
    next
      case other: False
      have "extract_from dirs segs i = extract_from dirs segs (i + 1)"
        using True other by (subst extract_from.simps) simp
      also have "\<dots> = (case dropWhile (\<lambda>s. s \<notin> set dirs) (drop (i + 1) segs) of
            m # nxt # rest \<Rightarrow> Some nxt | _ \<Rightarrow> None)"
        using 1 True other by simp
      finally show ?thesis using other by (simp add: d)
    qed
  qed
qed

lemma extractComponentName_eq:
  "extractComponentName p dirs =
     (case dropWhile (\<lambda>s. s \<notin> set dirs) (split_slash p) of
        m # nxt # rest \<Rightarrow> Some nxt
      | _ \<Rightarrow> None)"
  by (simp add: extractComponentName_def extract_from_drop)

lemma dropWhile_first_marker:
  "set pre \<inter> set dirs = {} \<Longrightarrow> m \<in> set dirs \<Longrightarrow>
   dropWhile (\<lambda>s. s \<notin> set dirs) (pre @ m # rest) = m # rest"
  by (induction pre) auto

lemma dropWhile_no_marker:
  "set segs \<inter> set dirs = {} \<Longrightarrow> dropWhile (\<lambda>s. s \<notin> set dirs) segs = []"
  by (induction segs) auto

lemma dropWhile_last:
  "set pre \<inter> set dirs = {} \<Longrightarrow>
   dropWhile (\<lambda>s. s \<notin> set dirs) (pre @ [m]) = (if m \<in> set dirs then [m] else [])"
  by (induction pre) auto

text \<open>
  Claim C7. \<open>extractComponentName\<close> splits the path at \<open>/\<close> and returns the segment that
  follows the first segment equal to a marker, when there is one; it returns null for
  a path with no marker segment and for a path whose first marker is the final segment.
\<close>

theorem extractComponentName_first_marker:
  "extractComponentName p componentDirs =
     (case dropWhile (\<lambda>s. s \<notin> set componentDirs) (split_slash p) of
        m # nxt # rest \<Rightarrow> Some nxt
      | _ \<Rightarrow> None)
   \<and> (\<forall>pre m nxt rest.
        split_slash p = pre @ m # nxt # rest \<and> set pre \<inter> set componentDirs = {} \<and> m \<in> set componentDirs
        \<longrightarrow> extractComponentName p componentDirs = Some nxt)
   \<and> (set (split_slash p) \<inter> set componentDirs = {} \<longrightarrow> extractComponentName p componentDirs = None)
   \<and> (\<forall>pre m. split_slash p = pre @ [m] \<and> set pre \<inter> set componentDirs = {}
        \<longrightarrow> extractComponentName p componentDirs = None)"
proof (intro conjI allI impI)
  show "extractComponentName p componentDirs =
     (case dropWhile (\<lambda>s. s \<notin> set componentDirs) (split_slash p) of
        m # nxt # rest \<Rightarrow> Some nxt
      | _ \<Rightarrow> None)"
    by (rule extractComponentName_eq)
next
  fix pre m nxt rest
  assume "split_slash p = pre @ m # nxt # rest \<and> set pre \<inter> set componentDirs = {} \<and> m \<in> set componentDirs"
  then show "extractComponentName p componentDirs = Some nxt"
    by (simp add: extractComponentName_eq dropWhile_first_marker)
next
  assume "set (split_slash p) \<inter> set componentDirs = {}"
  then show "extractComponentName p componentDirs = None"
    by (simp add: extractComponentName_eq dropWhile_no_marker)
next
  fix pre m
  assume "split_slash p = pre @ [m] \<and> set pre \<inter> set componentDirs = {}"
  then show "extractComponentName p componentDirs = None"
    by (simp add: extractComponentName_eq dropWhile_last)
qed

theorem extractComponentName_first_marker_witness:
  "extractComponentName ''components/_partials/button/button.njk'' [''_partials'', ''sections''] = Some ''button''
   \<and> extractComponentName ''templates/page.njk'' [''_partials'', ''sections''] = None
   \<and> extractComponentName ''components/_partials'' [''_partials'', ''sections''] = None"
proof -
  note t1 = extractComponentName_first_marker[of "''components/_partials/button/button.njk''" "[''_partials'', ''sections'']"]
  note t2 = extractComponentName_first_marker[of "''templates/page.njk''" "[''_partials'', ''sections'']"]
  note t3 = extractComponentName_first_marker[of "''components/_partials''" "[''_partials'', ''sections'']"]
  have s1: "split_slash ''components/_partials/button/button.njk'' = [''components''] @ ''_partials'' # ''button'' # [''button.njk'']
        \<and> set [''components''] \<inter> set [''_partials'', ''sections''] = {} \<and> ''_partials'' \<in> set [''_partials'', ''sections'']"
    by simp
  have s2: "set (split_slash ''templates/page.njk'') \<inter> set [''_partials'', ''sections''] = {}"
    by simp
  have s3: "split_slash ''components/_partials'' = [''components''] @ [''_partials'']
        \<and> set [''components''] \<inter> set [''_partials'', ''sections''] = {}"
    by simp
  from t1 s1 have a: "extractComponentName ''components/_partials/button/button.njk'' [''_partials'', ''sections''] = Some ''button''"
    by blast
  from t2 s2 have b: "extractComponentName ''templates/page.njk'' [''_partials'', ''sections''] = None"
    by blast
  from t3 s3 have c: "extractComponentName ''components/_partials'' [''_partials'', ''sections''] = None"
    by blast
  from a b c show ?thesis by blast
qed

lemma set_add_all [simp]: "set (add_all xs target) = set xs \<union> set target"
  unfolding add_all_def by (induction xs arbitrary: target) auto

lemma set_fold_add_all:
  "set (fold add_all xss acc) = \<Union> (set ` set xss) \<union> set acc"
  by (induction xss arbitrary: acc) auto

lemma set_scan:
  "set (scanEntry env componentDirs dir e components) =
     set components \<union> \<Union> (set ` layout_file_components env componentDirs ` set (njk_files_entry env dir e))"
  "set (scanDirectory env componentDirs dir es components) =
     set components \<union> \<Union> (set ` layout_file_components env componentDirs ` set (njk_files env dir es))"
proof (induction env componentDirs dir e components and env componentDirs dir es components
       rule: scanEntry_scanDirectory.induct)
  case (1 env componentDirs dir entryName sub components)
  then show ?case by simp
next
  case (2 env componentDirs dir entryName components)
  then show ?case by (auto simp: layout_file_components_def split: sum.splits)
next
  case (3 env componentDirs dir entryName components)
  then show ?case by simp
next
  case (4 env componentDirs dir components)
  then show ?case by simp
next
  case (5 env componentDirs dir e es components)
  then show ?case by auto
qed

lemma set_scanLayoutFiles:
  "set (scanLayoutFiles env d (Some entries) componentDirs) =
     \<Union> (set ` layout_file_components env componentDirs ` set (njk_files env d entries))"
  by (simp add: scanLayoutFiles_def set_scan)

lemma detect_console:
  "fst (detectUsedComponents env inputDir templateFiles layoutDir layoutTree componentDirs console) =
     console @ concat (map (file_warnings env inputDir componentDirs) templateFiles)"
  by (simp add: detectUsedComponents_def Let_def file_warnings_def[abs_def] comp_def split: option.splits)

lemma detect_set:
  "set (snd (detectUsedComponents env inputDir templateFiles layoutDir layoutTree componentDirs console)) =
     (\<Union>f \<in> set templateFiles. set (file_components env inputDir componentDirs f))
     \<union> layout_components env layoutDir layoutTree componentDirs"
  by (auto simp: detectUsedComponents_def Let_def file_components_def[abs_def] layout_components_def
        set_fold_add_all set_scanLayoutFiles split: option.splits)

lemma processFile_read_fails:
  "readFile env (path_join env inputDir f) = Inl message \<Longrightarrow>
   processFile env inputDir componentDirs f = ([read_warning (path_join env inputDir f) message], [])"
  by (simp add: processFile_def Let_def)

lemma processFile_parse_fails:
  "readFile env (path_join env inputDir f) = Inr text \<Longrightarrow> matter env text = Inl message \<Longrightarrow>
   processFile env inputDir componentDirs f = ([read_warning (path_join env inputDir f) message], [])"
  by (simp add: processFile_def Let_def)

lemma processFile_reads:
  "readFile env (path_join env inputDir f) = Inr text \<Longrightarrow> matter env text = Inr parsed \<Longrightarrow>
   file_warnings env inputDir componentDirs f = []"
  by (simp add: processFile_def Let_def file_warnings_def)

text \<open>
  Claim C8. In \<open>detectUsedComponents\<close> a template file whose read fails (or whose
  front matter fails to parse) writes one warning and contributes no names, the other
  files are processed all the same, and the returned set is the union of the per-file
  sets with the layout files' sets, whatever the order of the files; in the layout
  walk an unreadable file contributes nothing and writes nothing: the console gains
  the input files' warnings and no other line.
\<close>

theorem detectUsedComponents_isolates_failures:
  "(\<forall>f message. readFile env (path_join env inputDir f) = Inl message \<longrightarrow>
       file_warnings env inputDir componentDirs f = [read_warning (path_join env inputDir f) message]
       \<and> file_components env inputDir componentDirs f = [])
   \<and> (\<forall>f text message. readFile env (path_join env inputDir f) = Inr text \<and> matter env text = Inl message \<longrightarrow>
       file_warnings env inputDir componentDirs f = [read_warning (path_join env inputDir f) message]
       \<and> file_components env inputDir componentDirs f = [])
   \<and> (\<forall>f text parsed. readFile env (path_join env inputDir f) = Inr text \<and> matter env text = Inr parsed \<longrightarrow>
       file_warnings env inputDir componentDirs f = [])
   \<and> mset (fst (detectUsedComponents env inputDir templateFiles layoutDir layoutTree componentDirs console)) =
       mset console + mset (concat (map (file_warnings env inputDir componentDirs) templateFiles))
   \<and> set (snd (detectUsedComponents env inputDir templateFiles layoutDir layoutTree componentDirs console)) =
       (\<Union>f \<in> set templateFiles. set (file_components env inputDir componentDirs f))
       \<union> layout_components env layoutDir layoutTree componentDirs
   \<and> (\<forall>otherOrder. set otherOrder = set templateFiles \<longrightarrow>
         set (snd (detectUsedComponents env inputDir otherOrder layoutDir layoutTree componentDirs console)) =
         set (snd (detectUsedComponents env inputDir templateFiles layoutDir layoutTree componentDirs console)))
   \<and> (\<forall>p message. readFile env p = Inl message \<longrightarrow> layout_file_components env componentDirs p = [])
   \<and> (\<forall>d entries. set (scanLayoutFiles env d (Some entries) componentDirs) =
         \<Union> (set ` layout_file_components env componentDirs ` set (njk_files env d entries)))"
proof (intro conjI allI impI)
  fix f message
  assume "readFile env (path_join env inputDir f) = Inl message"
  then have "processFile env inputDir componentDirs f = ([read_warning (path_join env inputDir f) message], [])"
    by (rule processFile_read_fails)
  then show "file_warnings env inputDir componentDirs f = [read_warning (path_join env inputDir f) message]"
    and "file_components env inputDir componentDirs f = []"
    by (simp_all add: file_warnings_def file_components_def)
next
  fix f raw message
  assume "readFile env (path_join env inputDir f) = Inr raw \<and> matter env raw = Inl message"
  then have "processFile env inputDir componentDirs f = ([read_warning (path_join env inputDir f) message], [])"
    by (simp add: processFile_parse_fails)
  then show "file_warnings env inputDir componentDirs f = [read_warning (path_join env inputDir f) message]"
    and "file_components env inputDir componentDirs f = []"
    by (simp_all add: file_warnings_def file_components_def)
next
  fix f raw parsed
  assume "readFile env (path_join env inputDir f) = Inr raw \<and> matter env raw = Inr parsed"
  then show "file_warnings env inputDir componentDirs f = []"
    by (simp add: processFile_reads)
next
  show "mset (fst (detectUsedComponents env inputDir templateFiles layoutDir layoutTree componentDirs console)) =
       mset console + mset (concat (map (file_warnings env inputDir componentDirs) templateFiles))"
    by (simp add: detect_console)
next
  show "set (snd (detectUsedComponents env inputDir templateFiles layoutDir layoutTree componentDirs console)) =
       (\<Union>f \<in> set templateFiles. set (file_components env inputDir componentDirs f))
       \<union> layout_components env layoutDir layoutTree componentDirs"
    by (rule detect_set)
next
  fix otherOrder :: "string list"
  assume "set otherOrder = set templateFiles"
  then show "set (snd (detectUsedComponents env inputDir otherOrder layoutDir layoutTree componentDirs console)) =
         set (snd (detectUsedComponents env inputDir templateFiles layoutDir layoutTree componentDirs console))"
    by (simp add: detect_set)
next
  fix p message
  assume "readFile env p = Inl message"
  then show "layout_file_components env componentDirs p = []"
    by (simp add: layout_file_components_def)
next
  fix d entries
  show "set (scanLayoutFiles env d (Some entries) componentDirs) =
         \<Union> (set ` layout_file_components env componentDirs ` set (njk_files env d entries))"
    by (rule set_scanLayoutFiles)
qed

lemma extract_button0: "extractComponentName ''components/_partials/button/button.njk'' markers0 = Some ''button''"
  by (simp add: extractComponentName_eq markers0_def)

lemma scan0_sel:
  "readFile scan0 = (\<lambda>p. if p = ''src/index.md'' then Inr ''A''
                             else if p = ''layouts/base.njk'' then Inr ''B''
                             else Inl ''ENOENT'')"
  "matter scan0 = (\<lambda>t. Inr \<lparr>data_sections =
                                   (if t = ''A''
                                    then Some [SectionObject (Some ''hero''), SectionObject None, SectionOther]
                                    else None),
                                 content = t\<rparr>)"
  "import_paths scan0 = (\<lambda>t. if t = ''B'' then [''components/_partials/button/button.njk''] else [])"
  "include_paths scan0 = (\<lambda>t. [])"
  "path_join scan0 = (\<lambda>a b. a @ ''/'' @ b)"
  by (simp_all add: scan0_def)

lemma parse_base0: "parseTemplateFile scan0 ''B'' markers0 = [''button'']"
  by (simp add: parseTemplateFile_def scan0_sel extract_button0 set_add_def)

lemma parse_index0: "parseTemplateFile scan0 ''A'' markers0 = []"
  by (simp add: parseTemplateFile_def scan0_sel)

lemma processFile_index0: "processFile scan0 ''src'' markers0 ''index.md'' = ([], [''hero''])"
  by (simp add: processFile_def Let_def scan0_sel parse_index0 add_all_def set_add_def)

lemma processFile_missing0: "processFile scan0 ''src'' markers0 ''missing.md'' = ([''Warning: Could not read template file src/missing.md: ENOENT''], [])"
  by (simp add: processFile_def Let_def scan0_sel read_warning_def)

lemma scanLayoutFiles0: "scanLayoutFiles scan0 ''layouts'' (Some layout0) markers0 = [''button'']"
  by (simp add: scanLayoutFiles_def layout0_def ends_with_def suffix_to_prefix scan0_sel parse_base0 add_all_def set_add_def)

lemma detect0:
  "detectUsedComponents scan0 ''src'' [''index.md'', ''missing.md''] (Some ''layouts'') (Some layout0) markers0 [] =
     ([''Warning: Could not read template file src/missing.md: ENOENT''], [''hero'', ''button''])"
  by (simp add: detectUsedComponents_def Let_def processFile_index0 processFile_missing0 scanLayoutFiles0 add_all_def set_add_def)

theorem detectUsedComponents_isolates_failures_witness:
  "file_warnings scan0 ''src'' markers0 ''missing.md'' = [''Warning: Could not read template file src/missing.md: ENOENT'']
   \<and> file_components scan0 ''src'' markers0 ''missing.md'' = []
   \<and> layout_file_components scan0 markers0 ''layouts/broken.njk'' = []
   \<and> set (snd (detectUsedComponents scan0 ''src'' [''missing.md'', ''index.md''] (Some ''layouts'') (Some layout0) markers0 []))
       = {''hero'', ''button''}
   \<and> detectUsedComponents scan0 ''src'' [''index.md'', ''missing.md''] (Some ''layouts'') (Some layout0) markers0 [] =
       ([''Warning: Could not read template file src/missing.md: ENOENT''], [''hero'', ''button''])"
proof -
  note t = detectUsedComponents_isolates_failures[of scan0 "''src''" markers0
             "[''index.md'', ''missing.md'']" "Some ''layouts''" "Some layout0" "[]"]
  note read_fails = t[THEN conjunct1, rule_format]
  note any_order = t[THEN conjunct2, THEN conjunct2, THEN conjunct2, THEN conjunct2, THEN conjunct2,
                     THEN conjunct1, rule_format]
  note layout_fails = t[THEN conjunct2, THEN conjunct2, THEN conjunct2, THEN conjunct2, THEN conjunct2,
                        THEN conjunct2, THEN conjunct1, rule_format]
  have r1: "readFile scan0 (path_join scan0 ''src'' ''missing.md'') = Inl ''ENOENT''"
    by (simp add: scan0_sel)
  have r2: "readFile scan0 ''layouts/broken.njk'' = Inl ''ENOENT''"
    by (simp add: scan0_sel)
  have j: "read_warning (path_join scan0 ''src'' ''missing.md'') ''ENOENT'' =
      ''Warning: Could not read template file src/missing.md: ENOENT''"
    by (simp add: scan0_sel read_warning_def)
  have 1: "file_warnings scan0 ''src'' markers0 ''missing.md'' = [''Warning: Could not read template file src/missing.md: ENOENT'']"
    using read_fails[OF r1] unfolding j by (rule conjunct1)
  have 2: "file_components scan0 ''src'' markers0 ''missing.md'' = []"
    using read_fails[OF r1] by (rule conjunct2)
  have 3: "layout_file_components scan0 markers0 ''layouts/broken.njk'' = []"
    by (rule layout_fails[OF r2])
  have s: "set [''missing.md'', ''index.md''] = set [''index.md'', ''missing.md'']" by auto
  have "set (snd (detectUsedComponents scan0 ''src'' [''missing.md'', ''index.md''] (Some ''layouts'') (Some layout0) markers0 []))
      = set (snd (detectUsedComponents scan0 ''src'' [''index.md'', ''missing.md''] (Some ''layouts'') (Some layout0) markers0 []))"
    by (rule any_order[OF s])
  then have 4: "set (snd (detectUsedComponents scan0 ''src'' [''missing.md'', ''index.md''] (Some ''layouts'') (Some layout0) markers0 []))
       = {''hero'', ''button''}"
    unfolding detect0 by simp
  show ?thesis
    by (intro conjI) (rule 1, rule 2, rule 3, rule 4, rule detect0)
qed

section \<open>Entry points for the bundler: properties\<close>

lemma set_add_main_entry:
  "set (add_main_entry env root entry entryPoints) =
     set entryPoints \<union> {f \<in> set (declared_main env root entry). existsSync env f}"
  by (auto simp: add_main_entry_def declared_main_def Let_def split: option.splits)

lemma distinct_add_main_entry:
  "distinct entryPoints \<Longrightarrow> distinct (add_main_entry env root entry entryPoints)"
  by (auto simp: add_main_entry_def Let_def split: option.splits)

lemma set_collect_files:
  "set (collect_files env dir fs entryPoints) =
     set entryPoints \<union> {f \<in> set (map (node_join env dir) fs). existsSync env f}"
  by (induction fs arbitrary: entryPoints) (auto simp: Let_def)

lemma distinct_collect_files:
  "distinct entryPoints \<Longrightarrow> distinct (collect_files env dir fs entryPoints)"
  by (induction fs arbitrary: entryPoints) (auto simp: Let_def)

lemma set_collectComponentAssets:
  "set (fst (collectComponentAssets env cs (css, js))) =
     set css \<union> {f \<in> set (declared_styles env cs). existsSync env f}
   \<and> set (snd (collectComponentAssets env cs (css, js))) =
     set js \<union> {f \<in> set (declared_scripts env cs). existsSync env f}"
proof (induction cs arbitrary: css js)
  case Nil
  then show ?case by (simp add: declared_styles_def declared_scripts_def)
next
  case (Cons c cs)
  have s: "declared_styles env (c # cs) = map (node_join env (path c)) (styles c) @ declared_styles env cs"
    by (simp add: declared_styles_def)
  have t: "declared_scripts env (c # cs) = map (node_join env (path c)) (scripts c) @ declared_scripts env cs"
    by (simp add: declared_scripts_def)
  show ?case
    using Cons[of "collect_files env (path c) (styles c) css" "collect_files env (path c) (scripts c) js"]
    by (auto simp: s t set_collect_files)
qed

lemma distinct_collectComponentAssets:
  "distinct css \<Longrightarrow> distinct js \<Longrightarrow>
   distinct (fst (collectComponentAssets env cs (css, js)))
   \<and> distinct (snd (collectComponentAssets env cs (css, js)))"
proof (induction cs arbitrary: css js)
  case Nil
  then show ?case by simp
next
  case (Cons c cs)
  then show ?case by (simp add: distinct_collect_files)
qed

lemma filter_all: "\<forall>x \<in> set xs. P x \<Longrightarrow> filter P xs = xs"
  by (induction xs) auto

text \<open>
  Claim C10. In \<open>bundleWithESBuild\<close> the entry-point sets hold exactly the declared
  style and script paths and the configured main entries whose file exists: a path
  whose file is missing is left out, and no branch of the collection fails. The files
  \<open>bundleCSS\<close> reads and the files \<open>bundleJS\<close> imports are those sets again.
\<close>

theorem entry_points_exist:
  "set (fst (entry_points env options root baseComps sectionComps)) =
     {f \<in> set (declared_main env root (mainCSSEntry options))
            \<union> set (declared_styles env (baseComps @ sectionComps)). existsSync env f}
   \<and> set (snd (entry_points env options root baseComps sectionComps)) =
     {f \<in> set (declared_main env root (mainJSEntry options))
            \<union> set (declared_scripts env (baseComps @ sectionComps)). existsSync env f}
   \<and> (\<forall>f \<in> set (fst (entry_points env options root baseComps sectionComps))
            \<union> set (snd (entry_points env options root baseComps sectionComps)). existsSync env f)
   \<and> css_files_read env (fst (entry_points env options root baseComps sectionComps))
       = fst (entry_points env options root baseComps sectionComps)
   \<and> jsEntryArray env (snd (entry_points env options root baseComps sectionComps))
       = snd (entry_points env options root baseComps sectionComps)
   \<and> distinct (fst (entry_points env options root baseComps sectionComps))
   \<and> distinct (snd (entry_points env options root baseComps sectionComps))"
proof -
  let ?ep = "entry_points env options root baseComps sectionComps"
  let ?css0 = "add_main_entry env root (mainCSSEntry options) []"
  let ?js0 = "add_main_entry env root (mainJSEntry options) []"
  have ep: "?ep = collectComponentAssets env (baseComps @ sectionComps) (?css0, ?js0)"
    by (simp add: entry_points_def addMainEntries_def)
  have c: "set (fst ?ep) =
     {f \<in> set (declared_main env root (mainCSSEntry options))
            \<union> set (declared_styles env (baseComps @ sectionComps)). existsSync env f}"
    unfolding ep using set_collectComponentAssets[of env "baseComps @ sectionComps" ?css0 ?js0]
    by (auto simp: set_add_main_entry)
  have j: "set (snd ?ep) =
     {f \<in> set (declared_main env root (mainJSEntry options))
            \<union> set (declared_scripts env (baseComps @ sectionComps)). existsSync env f}"
    unfolding ep using set_collectComponentAssets[of env "baseComps @ sectionComps" ?css0 ?js0]
    by (auto simp: set_add_main_entry)
  have a: "\<forall>f \<in> set (fst ?ep) \<union> set (snd ?ep). existsSync env f"
    unfolding c j by blast
  have f1: "css_files_read env (fst ?ep) = fst ?ep"
    unfolding css_files_read_def using a by (intro filter_all) blast
  have f2: "jsEntryArray env (snd ?ep) = snd ?ep"
    unfolding jsEntryArray_def using a by (intro filter_all) blast
  have d: "distinct (fst ?ep) \<and> distinct (snd ?ep)"
    unfolding ep by (rule distinct_collectComponentAssets) (simp_all add: distinct_add_main_entry)
  from c j a f1 f2 d show ?thesis by blast
qed

lemma entry_points0:
  "entry_points node0 options0 ''/site'' [button_assets] [] =
     ([''/site/assets/main.css'', ''/c/button/button.css''], [''/c/button/button.js''])"
  by (simp add: entry_points_def addMainEntries_def add_main_entry_def Let_def set_add_def
        node0_def options0_def button_assets_def)

theorem entry_points_exist_witness:
  "''/c/button/non-existent.css'' \<notin> set (fst (entry_points node0 options0 ''/site'' [button_assets] []))
   \<and> ''/site/non-existent/main.js'' \<notin> set (snd (entry_points node0 options0 ''/site'' [button_assets] []))
   \<and> ''/c/button/non-existent.css'' \<in> set (declared_styles node0 [button_assets])
   \<and> entry_points node0 options0 ''/site'' [button_assets] [] =
       ([''/site/assets/main.css'', ''/c/button/button.css''], [''/c/button/button.js''])"
proof -
  note t = entry_points_exist[of node0 options0 "''/site''" "[button_assets]" "[]"]
  have n1: "\<not> existsSync node0 ''/c/button/non-existent.css''" by (simp add: node0_def)
  have n2: "\<not> existsSync node0 ''/site/non-existent/main.js''" by (simp add: node0_def)
  from t n1 have 1: "''/c/button/non-existent.css'' \<notin> set (fst (entry_points node0 options0 ''/site'' [button_assets] []))"
    by blast
  from t n2 have 2: "''/site/non-existent/main.js'' \<notin> set (snd (entry_points node0 options0 ''/site'' [button_assets] []))"
    by blast
  have 3: "''/c/button/non-existent.css'' \<in> set (declared_styles node0 [button_assets])"
    by (simp add: declared_styles_def node0_def button_assets_def)
  from 1 2 3 entry_points0 show ?thesis by blast
qed

section \<open>Requirement resolver: properties\<close>

lemma resolve_queue_keeps_resolved: "set resolved \<subseteq> set (resolve_queue m queue resolved)"
proof (induction m queue resolved rule: resolve_queue.induct)
  case (1 m resolved)
  then show ?case by simp
next
  case (2 m current queue resolved)
  show ?case
  proof (cases "current \<in> set resolved")
    case True
    then show ?thesis using 2(1) by (simp add: resolve_queue_visited)
  next
    case False
    show ?thesis
    proof (cases "cm_get m current")
      case None
      then show ?thesis using 2(2) False by (simp add: resolve_queue_missing)
    next
      case (Some c)
      then show ?thesis using 2(3) False by (simp add: resolve_queue_found)
    qed
  qed
qed

lemma resolve_queue_visits_queue: "set queue \<subseteq> set (resolve_queue m queue resolved)"
proof (induction m queue resolved rule: resolve_queue.induct)
  case (1 m resolved)
  then show ?case by simp
next
  case (2 m current queue resolved)
  show ?case
  proof (cases "current \<in> set resolved")
    case True
    then show ?thesis
      using 2(1) resolve_queue_keeps_resolved[of resolved m queue]
      by (auto simp: resolve_queue_visited)
  next
    case False
    show ?thesis
    proof (cases "cm_get m current")
      case None
      then show ?thesis
        using 2(2) False resolve_queue_keeps_resolved[of "resolved @ [current]" m queue]
        by (auto simp: resolve_queue_missing)
    next
      case (Some c)
      then show ?thesis
        using 2(3)[OF False refl Some] False
          resolve_queue_keeps_resolved[of "resolved @ [current]" m
             "queue @ filter (\<lambda>r. r \<notin> set (resolved @ [current])) (requirements c)"]
        by (auto simp: resolve_queue_found)
    qed
  qed
qed

lemma resolve_queue_closed:
  "closed_upto m (set resolved) (set queue) \<Longrightarrow>
   closed_upto m (set (resolve_queue m queue resolved)) {}"
proof (induction m queue resolved rule: resolve_queue.induct)
  case (1 m resolved)
  then show ?case by simp
next
  case (2 m current queue resolved)
  show ?case
  proof (cases "current \<in> set resolved")
    case True
    have "closed_upto m (set resolved) (set queue)"
      using 2(4) True unfolding closed_upto_def by auto
    then show ?thesis using 2(1) True by (simp add: resolve_queue_visited)
  next
    case False
    show ?thesis
    proof (cases "cm_get m current")
      case None
      have "closed_upto m (set (resolved @ [current])) (set queue)"
        using 2(4) None unfolding closed_upto_def by auto
      then show ?thesis using 2(2) False None by (simp add: resolve_queue_missing)
    next
      case (Some c)
      have "closed_upto m (set (resolved @ [current]))
              (set (queue @ filter (\<lambda>r. r \<notin> set (resolved @ [current])) (requirements c)))"
        using 2(4) Some unfolding closed_upto_def by auto
      then show ?thesis using 2(3) False Some by (simp add: resolve_queue_found)
    qed
  qed
qed

lemma resolve_queue_sound:
  "\<forall>x \<in> set queue \<union> set resolved. reaches m used x \<Longrightarrow>
   \<forall>x \<in> set (resolve_queue m queue resolved). reaches m used x"
proof (induction m queue resolved rule: resolve_queue.induct)
  case (1 m resolved)
  then show ?case by simp
next
  case (2 m current queue resolved)
  have cur: "reaches m used current" using 2(4) by simp
  have rest: "\<forall>x \<in> set queue \<union> set resolved. reaches m used x" using 2(4) by simp
  show ?case
  proof (cases "current \<in> set resolved")
    case True
    have "\<forall>x \<in> set (resolve_queue m queue resolved). reaches m used x"
      by (rule 2(1)[OF True rest])
    then show ?thesis by (simp only: resolve_queue_visited[OF True])
  next
    case False
    show ?thesis
    proof (cases "cm_get m current")
      case None
      have "\<forall>x \<in> set queue \<union> set (resolved @ [current]). reaches m used x"
        using cur rest by simp
      then have "\<forall>x \<in> set (resolve_queue m queue (resolved @ [current])). reaches m used x"
        by (rule 2(2)[OF False refl None])
      then show ?thesis by (simp only: resolve_queue_missing[OF False None])
    next
      case (Some c)
      have "\<forall>r \<in> set (requirements c). reaches m used r"
        using cur Some reaches.required by blast
      then have "\<forall>x \<in> set (queue @ filter (\<lambda>r. r \<notin> set (resolved @ [current])) (requirements c))
                     \<union> set (resolved @ [current]). reaches m used x"
        using cur rest by auto
      then have "\<forall>x \<in> set (resolve_queue m
                     (queue @ filter (\<lambda>r. r \<notin> set (resolved @ [current])) (requirements c))
                     (resolved @ [current])). reaches m used x"
        by (rule 2(3)[OF False refl Some])
      then show ?thesis by (simp only: resolve_queue_found[OF False Some])
    qed
  qed
qed

lemma resolve_queue_distinct:
  "distinct resolved \<Longrightarrow> distinct (resolve_queue m queue resolved)"
proof (induction m queue resolved rule: resolve_queue.induct)
  case (1 m resolved)
  then show ?case by simp
next
  case (2 m current queue resolved)
  show ?case
  proof (cases "current \<in> set resolved")
    case True
    then show ?thesis using 2(1,4) by (simp add: resolve_queue_visited)
  next
    case False
    then have d: "distinct (resolved @ [current])" using 2(4) by simp
    show ?thesis
    proof (cases "cm_get m current")
      case None
      then show ?thesis using 2(2)[OF False refl None d] False by (simp add: resolve_queue_missing)
    next
      case (Some c)
      then show ?thesis using 2(3)[OF False refl Some d] False by (simp add: resolve_queue_found)
    qed
  qed
qed

lemma reaches_in_closed:
  assumes "reaches m used x" "set used \<subseteq> S" "closed_upto m S {}"
  shows "x \<in> S"
  using assms
proof (induction rule: reaches.induct)
  case (used x)
  then show ?case by auto
next
  case (required y c r)
  then show ?case unfolding closed_upto_def by blast
qed

lemma resolveAllDependencies_set:
  "set (resolveAllDependencies used m) = {x. reaches m used x}"
proof -
  have c: "closed_upto m (set (resolveAllDependencies used m)) {}"
    unfolding resolveAllDependencies_def
    by (rule resolve_queue_closed) (simp add: closed_upto_def)
  have u: "set used \<subseteq> set (resolveAllDependencies used m)"
    unfolding resolveAllDependencies_def by (rule resolve_queue_visits_queue)
  have s: "\<forall>x \<in> set (resolveAllDependencies used m). reaches m used x"
    unfolding resolveAllDependencies_def
    by (rule resolve_queue_sound) (auto intro: reaches.used)
  show ?thesis using reaches_in_closed[OF _ u c] s by auto
qed

lemma resolve_queue_all_visited:
  "set queue \<subseteq> set resolved \<Longrightarrow> resolve_queue m queue resolved = resolved"
  by (induction queue) (auto simp: resolve_queue_visited)

lemma resolve_queue_replay:
  "closed_upto m (set (seen @ todo)) {} \<Longrightarrow> distinct (seen @ todo) \<Longrightarrow>
   set extra \<subseteq> set (seen @ todo) \<Longrightarrow>
   resolve_queue m (todo @ extra) seen = seen @ todo"
proof (induction todo arbitrary: seen extra)
  case Nil
  then show ?case using resolve_queue_all_visited[of extra "seen" m] by simp
next
  case (Cons x todo)
  have nx: "x \<notin> set seen" using Cons.prems(2) by auto
  have c': "closed_upto m (set ((seen @ [x]) @ todo)) {}" using Cons.prems(1) by simp
  have d': "distinct ((seen @ [x]) @ todo)" using Cons.prems(2) by simp
  show ?case
  proof (cases "cm_get m x")
    case None
    have "resolve_queue m ((x # todo) @ extra) seen = resolve_queue m (todo @ extra) (seen @ [x])"
      using resolve_queue_missing[OF nx None] by simp
    also have "\<dots> = (seen @ [x]) @ todo"
      using Cons.prems(3) by (intro Cons.IH[OF c' d']) auto
    finally show ?thesis by simp
  next
    case (Some c)
    let ?new = "filter (\<lambda>r. r \<notin> set (seen @ [x])) (requirements c)"
    have "set (requirements c) \<subseteq> set (seen @ x # todo)"
      using Cons.prems(1) Some unfolding closed_upto_def by auto
    then have e: "set (extra @ ?new) \<subseteq> set ((seen @ [x]) @ todo)"
      using Cons.prems(3) by auto
    have "resolve_queue m ((x # todo) @ extra) seen = resolve_queue m (todo @ (extra @ ?new)) (seen @ [x])"
      using resolve_queue_found[OF nx Some] by simp
    also have "\<dots> = (seen @ [x]) @ todo"
      by (rule Cons.IH[OF c' d' e])
    finally show ?thesis by simp
  qed
qed

lemma resolveAllDependencies_closed:
  "closed_upto m (set (resolveAllDependencies used m)) {}"
  unfolding resolveAllDependencies_def
  by (rule resolve_queue_closed) (simp add: closed_upto_def)

lemma resolveAllDependencies_distinct: "distinct (resolveAllDependencies used m)"
  unfolding resolveAllDependencies_def by (rule resolve_queue_distinct) simp

lemma reaches_mentioned:
  "reaches m used x \<Longrightarrow> x \<in> set used \<union> set (all_names m)"
proof (induction rule: reaches.induct)
  case (used x)
  then show ?case by simp
next
  case (required y c r)
  then have "(y, c) \<in> set m" by (auto simp: cm_get_def dest: map_of_SomeD)
  then show ?case using required(3) by (force simp: all_names_def)
qed

lemma cycle_eval: "resolveAllDependencies [''a''] cycle_map = [''a'', ''b'', ''ghost'']"
  by (simp add: resolveAllDependencies_def cycle_map_def comp_a_def comp_b_def comp_self_def
        resolve_queue.simps(2) cm_get_def requirements_def)

text \<open>
  Claim C3. For every used-component set and every component map, also with a
  self-loop or a mutual cycle among the requirements, \<open>resolveAllDependencies\<close>
  terminates (\<open>resolve_queue\<close> is total: its termination proof stands with its
  definition, and the result stays within the names the input mentions); its result
  is exactly the set of reached names, so every component on a cycle reachable from
  the used set is a member; a reached name with no component in the map is a member
  too, and only resolvable members bring further names in.
\<close>

theorem resolveAllDependencies_closure:
  "(\<forall>x. x \<in> set (resolveAllDependencies used m) \<longleftrightarrow> reaches m used x)
   \<and> (\<forall>x. reaches m used x \<longrightarrow> x \<in> set (resolveAllDependencies used m))
   \<and> (\<forall>x. reaches m used x \<and> cm_get m x = None \<longrightarrow> x \<in> set (resolveAllDependencies used m))
   \<and> (\<forall>x. x \<in> set (resolveAllDependencies used m) \<longrightarrow>
          x \<in> set used \<or> (\<exists>y c. y \<in> set (resolveAllDependencies used m) \<and> cm_get m y = Some c
                               \<and> x \<in> set (requirements c)))
   \<and> set (resolveAllDependencies used m) \<subseteq> set used \<union> set (all_names m)
   \<and> distinct (resolveAllDependencies used m)"
proof (intro conjI allI impI)
  fix x
  show "x \<in> set (resolveAllDependencies used m) \<longleftrightarrow> reaches m used x"
    using resolveAllDependencies_set[of used m] by auto
  then show "reaches m used x \<Longrightarrow> x \<in> set (resolveAllDependencies used m)" by simp
  show "reaches m used x \<and> cm_get m x = None \<Longrightarrow> x \<in> set (resolveAllDependencies used m)"
    using resolveAllDependencies_set[of used m] by auto
  assume "x \<in> set (resolveAllDependencies used m)"
  then have "reaches m used x" using resolveAllDependencies_set[of used m] by auto
  then show "x \<in> set used \<or> (\<exists>y c. y \<in> set (resolveAllDependencies used m) \<and> cm_get m y = Some c
                               \<and> x \<in> set (requirements c))"
  proof (cases rule: reaches.cases)
    case used
    then show ?thesis by simp
  next
    case (required y c)
    then show ?thesis using resolveAllDependencies_set[of used m] by auto
  qed
next
  show "set (resolveAllDependencies used m) \<subseteq> set used \<union> set (all_names m)"
    using resolveAllDependencies_set[of used m] reaches_mentioned[of m used] by blast
next
  show "distinct (resolveAllDependencies used m)" by (rule resolveAllDependencies_distinct)
qed

theorem resolveAllDependencies_closure_witness:
  "''a'' \<in> set (resolveAllDependencies [''a''] cycle_map)
   \<and> ''b'' \<in> set (resolveAllDependencies [''a''] cycle_map)
   \<and> ''ghost'' \<in> set (resolveAllDependencies [''a''] cycle_map)
   \<and> cm_get cycle_map ''ghost'' = None
   \<and> ''self'' \<in> set (resolveAllDependencies [''self''] cycle_map)
   \<and> resolveAllDependencies [''self''] cycle_map = [''self'']"
proof -
  have ra: "reaches cycle_map [''a''] ''a''" by (rule reaches.used) simp
  have ga: "cm_get cycle_map ''a'' = Some comp_a" by (simp add: cm_get_def cycle_map_def)
  have gb: "cm_get cycle_map ''b'' = Some comp_b" by (simp add: cm_get_def cycle_map_def)
  have gg: "cm_get cycle_map ''ghost'' = None" by (simp add: cm_get_def cycle_map_def)
  have gs: "cm_get cycle_map ''self'' = Some comp_self" by (simp add: cm_get_def cycle_map_def)
  have rb: "reaches cycle_map [''a''] ''b''"
    by (rule reaches.required[OF ra ga]) (simp add: requirements_def comp_a_def)
  have rg: "reaches cycle_map [''a''] ''ghost''"
    by (rule reaches.required[OF rb gb]) (simp add: requirements_def comp_b_def)
  have rs: "reaches cycle_map [''self''] ''self''" by (rule reaches.used) simp
  note t = resolveAllDependencies_closure[of "[''a'']" cycle_map]
  note s = resolveAllDependencies_closure[of "[''self'']" cycle_map]
  from t ra have 1: "''a'' \<in> set (resolveAllDependencies [''a''] cycle_map)" by blast
  from t rb have 2: "''b'' \<in> set (resolveAllDependencies [''a''] cycle_map)" by blast
  from t rg gg have 3: "''ghost'' \<in> set (resolveAllDependencies [''a''] cycle_map)" by blast
  from s rs have 4: "''self'' \<in> set (resolveAllDependencies [''self''] cycle_map)" by blast
  have 5: "resolveAllDependencies [''self''] cycle_map = [''self'']"
    by (simp add: resolveAllDependencies_def cycle_map_def comp_a_def comp_b_def comp_self_def
        resolve_queue.simps(2) cm_get_def requirements_def)
  from 1 2 3 gg 4 5 show ?thesis by blast
qed


text \<open>
  Claim C4. \<open>resolveAllDependencies\<close> is idempotent: run on its own result as the used
  set, it returns that result again (the same names, in the same order).
\<close>

theorem resolveAllDependencies_idempotent:
  "resolveAllDependencies (resolveAllDependencies used m) m = resolveAllDependencies used m"
proof -
  let ?r = "resolveAllDependencies used m"
  have "resolve_queue m (?r @ []) [] = [] @ ?r"
    by (rule resolve_queue_replay)
       (simp_all add: resolveAllDependencies_closed resolveAllDependencies_distinct)
  then show ?thesis by (simp add: resolveAllDependencies_def)
qed

theorem resolveAllDependencies_idempotent_witness:
  "resolveAllDependencies [''a'', ''b'', ''ghost''] cycle_map = [''a'', ''b'', ''ghost'']"
  using resolveAllDependencies_idempotent[of "[''a'']" cycle_map] unfolding cycle_eval .

section \<open>Path-safety sanitizer: properties\<close>
















end
